theory Spec2Isabelle
  imports
    Main
    "HOL-Library.Multiset"
    "HOL-Library.Sublist"
    "HOL-Library.Char_ord"
    "HOL-Library.List_Lexorder"
    "HOL-Library.Product_Lexorder"
begin

section \<open>The query engine of my.core.query\<close>

text \<open>
  This theory embeds \<^verbatim>\<open>src/my/core/query.py\<close>: the attribute locator
  \<^verbatim>\<open>attribute_func\<close>, the order function factory
  \<^verbatim>\<open>_generate_order_by_func\<close>, the partitioners
  \<^verbatim>\<open>_drop_unsorted\<close> and \<^verbatim>\<open>_wrap_unsorted\<close> and the pipeline
  \<^verbatim>\<open>select\<close>. A leading underscore of a Python name is dropped, since an
  Isabelle name cannot start with one.
\<close>

subsection \<open>Values\<close>

text \<open>
  The items of a stream are Python values. The model has the shapes the code tells
  apart: \<^verbatim>\<open>None\<close>, scalars that can be compared (integers, strings, datetimes as a
  timestamp), exceptions (class name and message), dicts with string keys in insertion
  order, instances of classes, and the \<^verbatim>\<open>Unsortable\<close> named tuple of the source.
  An instance carries what the code reads of it: whether its class is a dataclass, a
  named tuple or neither, the name of the class, the declared fields in declaration order
  (\<^verbatim>\<open>__annotations__\<close> of a dataclass, \<^verbatim>\<open>_fields\<close> of a named tuple), and
  its readable attributes as \<^verbatim>\<open>inspect.getmembers\<close> lists them (name and value).
  The methods and dunder attributes that Python gives to \<^verbatim>\<open>None\<close>, scalars,
  exceptions and dicts are not modelled: these values have no readable attribute here,
  and an \<^verbatim>\<open>Unsortable\<close> has the one attribute \<^verbatim>\<open>obj\<close>.
\<close>

datatype kind = Dataclass | NamedTuple | Plain

datatype pyval =
    PNone
  | PInt int
  | PStr string
  | PDatetime int
  | PExc string string
  | PDict "(string \<times> pyval) list"
  | PObj kind string "string list" "(string \<times> pyval) list"
  | Unsortable pyval

text \<open>
  Exceptions that a call can raise. \<^verbatim>\<open>QueryException\<close> carries what its message
  names; \<open>Raised e\<close> is the item \<open>e\<close> of the stream raised again by
  \<^verbatim>\<open>raise_exceptions\<close>.
\<close>

datatype query_error =
    NotAnIterator
  | CouldNotFind string pyval
  | NoOrderArgs

datatype exn =
    QueryException query_error
  | TypeError
  | AttributeError
  | KeyError
  | ValueError
  | AssertionError
  | Raised pyval

text \<open>
  Modelled from the spec: \<^verbatim>\<open>low\<close> of \<^verbatim>\<open>my.core.warnings\<close>, which is not among
  the source files, emits a non-fatal diagnostic. The model records the calls of
  \<^verbatim>\<open>low\<close> in the order they are made; a call never raises.
\<close>

datatype diag =
    LowOrderByException pyval
  | LowNotIterable

text \<open>
  An order function takes an item to its order value; \<open>PNone\<close> is absence. It may
  raise. A \<^verbatim>\<open>where\<close> predicate is a total function to \<open>bool\<close>.
\<close>

type_synonym orderfunc = "pyval \<Rightarrow> exn + pyval"

type_synonym pred = "pyval \<Rightarrow> bool"

fun is_exception :: "pyval \<Rightarrow> bool" where
  "is_exception (PExc c m) = True"
| "is_exception v = False"

fun is_dict :: "pyval \<Rightarrow> bool" where
  "is_dict (PDict kvs) = True"
| "is_dict v = False"

fun is_unsortable :: "pyval \<Rightarrow> bool" where
  "is_unsortable (Unsortable x) = True"
| "is_unsortable v = False"

fun is_dataclass :: "pyval \<Rightarrow> bool" where
  "is_dataclass (PObj k c fs ms) = (k = Dataclass)"
| "is_dataclass v = False"

text \<open>
  Modelled from the spec: \<^verbatim>\<open>is_namedtuple\<close> of \<^verbatim>\<open>my.core.types\<close>, which is not
  among the source files. The spec speaks of structured records with fixed named fields;
  here a value is a named tuple when its class is declared as one, and an
  \<^verbatim>\<open>Unsortable\<close> is one.
\<close>

fun is_namedtuple :: "pyval \<Rightarrow> bool" where
  "is_namedtuple (PObj k c fs ms) = (k = NamedTuple)"
| "is_namedtuple (Unsortable x) = True"
| "is_namedtuple v = False"

fun dict_items :: "pyval \<Rightarrow> (string \<times> pyval) list" where
  "dict_items (PDict kvs) = kvs"
| "dict_items v = []"

fun declared_fields :: "pyval \<Rightarrow> string list" where
  "declared_fields (PObj k c fs ms) = fs"
| "declared_fields (Unsortable x) = [''obj'']"
| "declared_fields v = []"

fun getmembers :: "pyval \<Rightarrow> (string \<times> pyval) list" where
  "getmembers (PObj k c fs ms) = ms"
| "getmembers (Unsortable x) = [(''obj'', x)]"
| "getmembers v = []"

definition hasattr :: "pyval \<Rightarrow> string \<Rightarrow> bool" where
  "hasattr obj name = (map_of (getmembers obj) name \<noteq> None)"

text \<open>\<^verbatim>\<open>getattr(obj, name)\<close> with no default raises when the attribute is missing.\<close>

definition getattr :: "pyval \<Rightarrow> string \<Rightarrow> exn + pyval" where
  "getattr obj name =
     (case map_of (getmembers obj) name of
        None \<Rightarrow> Inl AttributeError
      | Some v \<Rightarrow> Inr v)"

text \<open>
  The two closures the code returns. \<^verbatim>\<open>lambda o: getattr(o, k, default)\<close> never
  raises. \<^verbatim>\<open>lambda o: o.get(k, default)\<close> looks the key up when \<open>o\<close> is a dict;
  on any other value the attribute \<^verbatim>\<open>get\<close> is missing (AttributeError) or is a
  value of the model, none of which can be called (TypeError).
\<close>

definition getattr_default :: "string \<Rightarrow> pyval \<Rightarrow> orderfunc" where
  "getattr_default k d = (\<lambda>x.
     Inr (case map_of (getmembers x) k of None \<Rightarrow> d | Some v \<Rightarrow> v))"

definition dict_get :: "string \<Rightarrow> pyval \<Rightarrow> orderfunc" where
  "dict_get k d = (\<lambda>x.
     if is_dict x then Inr (case map_of (dict_items x) k of None \<Rightarrow> d | Some v \<Rightarrow> v)
     else if hasattr x ''get'' then Inl TypeError
     else Inl AttributeError)"

subsection \<open>attribute_func\<close>

text \<open>
  \<^verbatim>\<open>for k, v in obj.items(): if where(v): return ...\<close> and
  \<^verbatim>\<open>for k, v in inspect.getmembers(obj): if where(v): return ...\<close>: the first name
  whose value satisfies the predicate.
\<close>

fun first_where :: "pred \<Rightarrow> (string \<times> pyval) list \<Rightarrow> string option" where
  "first_where w [] = None"
| "first_where w ((k, v) # kvs) = (if w v then Some k else first_where w kvs)"

text \<open>
  \<^verbatim>\<open>for field_name in ...: if where(getattr(obj, field_name)): return ...\<close>: the
  first declared field whose value satisfies the predicate; reading a declared field that
  the instance does not have raises.
\<close>

fun first_field :: "pyval \<Rightarrow> pred \<Rightarrow> string list \<Rightarrow> exn + string option" where
  "first_field obj w [] = Inr None"
| "first_field obj w (n # ns) =
     (case getattr obj n of
        Inl e \<Rightarrow> Inl e
      | Inr v \<Rightarrow> if w v then Inr (Some n) else first_field obj w ns)"

definition attribute_func :: "pyval \<Rightarrow> pred \<Rightarrow> pyval \<Rightarrow> exn + orderfunc option" where
  "attribute_func obj w d =
     (let fallback =
            (case first_where w (getmembers obj) of
               Some k \<Rightarrow> Inr (Some (getattr_default k d))
             | None \<Rightarrow> Inr None)
      in
      if is_dict obj then
        (case first_where w (dict_items obj) of
           Some k \<Rightarrow> Inr (Some (dict_get k d))
         | None \<Rightarrow> fallback)
      else if is_dataclass obj then
        (case first_field obj w (declared_fields obj) of
           Inl e \<Rightarrow> Inl e
         | Inr (Some n) \<Rightarrow> Inr (Some (getattr_default n d))
         | Inr None \<Rightarrow> fallback)
      else if is_namedtuple obj then
        (case first_field obj w (declared_fields obj) of
           Inl e \<Rightarrow> Inl e
         | Inr (Some n) \<Rightarrow> Inr (Some (getattr_default n d))
         | Inr None \<Rightarrow> fallback)
      else fallback)"

subsection \<open>The order function factory\<close>

text \<open>
  The block \<^verbatim>\<open>if key is not None: ...\<close>: for a dict the key must be present, for
  any other value the attribute must be readable; otherwise the code falls through.
\<close>

definition key_func :: "pyval \<Rightarrow> string option \<Rightarrow> pyval \<Rightarrow> orderfunc option" where
  "key_func obj key d =
     (case key of
        None \<Rightarrow> None
      | Some k \<Rightarrow>
          if is_dict obj then
            (if map_of (dict_items obj) k \<noteq> None then Some (dict_get k d) else None)
          else
            (if hasattr obj k then Some (getattr_default k d) else None))"

text \<open>
  The tail of the factory: \<^verbatim>\<open>default\<close> if there is one, the constant absence
  if \<^verbatim>\<open>force_unsortable\<close>, and no function otherwise. \<open>PNone\<close> as the default
  is Python's \<^verbatim>\<open>default=None\<close>: no default supplied.
\<close>

definition default_func :: "pyval \<Rightarrow> bool \<Rightarrow> orderfunc option" where
  "default_func d force_unsortable =
     (if d \<noteq> PNone then Some (\<lambda>x. Inr d)
      else if force_unsortable then Some (\<lambda>x. Inr PNone)
      else None)"

text \<open>
  \<^verbatim>\<open>unwrap\<close> of \<^verbatim>\<open>my.core.error\<close> is applied to a sample that is not an
  exception, which it returns unchanged.
\<close>

definition generate_order_by_func ::
  "pyval \<Rightarrow> string option \<Rightarrow> pred option \<Rightarrow> pyval \<Rightarrow> bool
     \<Rightarrow> exn + (diag list \<times> orderfunc option)" where
  "generate_order_by_func obj_res key where_function d force_unsortable =
     (if is_exception obj_res then
        (if d \<noteq> PNone then Inr ([], Some (\<lambda>x. Inr d))
         else Inr ([LowOrderByException obj_res], Some (\<lambda>x. Inr PNone)))
      else
        (case key_func obj_res key d of
           Some f \<Rightarrow> Inr ([], Some f)
         | None \<Rightarrow>
             (case where_function of
                None \<Rightarrow> Inr ([], default_func d force_unsortable)
              | Some w \<Rightarrow>
                  (case attribute_func obj_res w d of
                     Inl e \<Rightarrow> Inl e
                   | Inr (Some f) \<Rightarrow> Inr ([], Some f)
                   | Inr None \<Rightarrow> Inr ([], default_func d force_unsortable)))))"

subsection \<open>Shape keys and the dispatch of order_value\<close>

text \<open>
  \<^verbatim>\<open>_determine_order_by_value_key\<close>: the class of the item, or the tuple of its
  keys when the item is a dict. A class is identified by its name.
\<close>

datatype shape_key = KClass string | KKeys "string list"

fun class_name :: "pyval \<Rightarrow> string" where
  "class_name PNone = ''NoneType''"
| "class_name (PInt i) = ''int''"
| "class_name (PStr s) = ''str''"
| "class_name (PDatetime t) = ''datetime''"
| "class_name (PExc c m) = c"
| "class_name (PDict kvs) = ''dict''"
| "class_name (PObj k c fs ms) = c"
| "class_name (Unsortable x) = ''Unsortable''"

definition determine_order_by_value_key :: "pyval \<Rightarrow> shape_key" where
  "determine_order_by_value_key obj_res =
     (if is_dict obj_res then KKeys (map fst (dict_items obj_res))
      else KClass (class_name obj_res))"

subsection \<open>Streams\<close>

text \<open>
  An iterator is consumed once. Its denotation is the list of the items it yields and
  how it ends: exhausted (\<open>None\<close>) or raising an exception (\<open>Some e\<close>) when the
  item after the last one is pulled. A lazy stage is a function on streams; an eager
  stage consumes its input and raises at once what the input raises.
\<close>

type_synonym stream = "pyval list \<times> exn option"

text \<open>
  Modelled from the spec: the helpers \<^verbatim>\<open>raise_exceptions\<close>, \<^verbatim>\<open>drop_exceptions\<close>
  and \<^verbatim>\<open>warn_exceptions\<close> of \<^verbatim>\<open>my.core.error\<close>, which is not among the source
  files. The spec: raise_exceptions re-raises the first Err encountered, aborting the
  pipeline; drop_exceptions removes Err items from the stream; warn_exceptions emits a
  diagnostic per Err but keeps the item in-stream. All three are generators; the
  diagnostics of warn_exceptions are not recorded.
\<close>

fun err_raise_exceptions :: "stream \<Rightarrow> stream" where
  "err_raise_exceptions ([], fault) = ([], fault)"
| "err_raise_exceptions (x # xs, fault) =
     (if is_exception x then ([], Some (Raised x))
      else (x # fst (err_raise_exceptions (xs, fault)), snd (err_raise_exceptions (xs, fault))))"

definition err_drop_exceptions :: "stream \<Rightarrow> stream" where
  "err_drop_exceptions itr = (filter (\<lambda>x. \<not> is_exception x) (fst itr), snd itr)"

definition err_warn_exceptions :: "stream \<Rightarrow> stream" where
  "err_warn_exceptions itr = itr"

text \<open>The builtin \<^verbatim>\<open>filter(where, itr)\<close>.\<close>

definition filter_itr :: "pred \<Rightarrow> stream \<Rightarrow> stream" where
  "filter_itr w itr = (filter w (fst itr), snd itr)"

text \<open>
  \<^verbatim>\<open>itertools.islice(itr, limit)\<close>: a negative limit is refused with ValueError;
  otherwise at most \<open>limit\<close> items are pulled, so the end of the input is reached only
  when it has fewer items.
\<close>

definition islice :: "stream \<Rightarrow> int \<Rightarrow> exn + stream" where
  "islice itr n =
     (if n < 0 then Inl ValueError
      else if nat n \<le> length (fst itr) then Inr (take (nat n) (fst itr), None)
      else Inr itr)"

text \<open>
  \<^verbatim>\<open>more_itertools.always_reversible\<close> on an iterator: \<^verbatim>\<open>reversed(list(itr))\<close>,
  which consumes the iterator at once.
\<close>

definition always_reversible :: "stream \<Rightarrow> exn + stream" where
  "always_reversible itr =
     (case snd itr of
        Some e \<Rightarrow> Inl e
      | None \<Rightarrow> Inr (rev (fst itr), None))"

subsection \<open>The partitioners\<close>

text \<open>\<^verbatim>\<open>_drop_unsorted\<close> is a generator: it ends by raising what the order function raises.\<close>

fun drop_unsorted :: "stream \<Rightarrow> orderfunc \<Rightarrow> stream" where
  "drop_unsorted ([], fault) orderfunc = ([], fault)"
| "drop_unsorted (x # xs, fault) orderfunc =
     (if is_unsortable x then drop_unsorted (xs, fault) orderfunc
      else
        (case orderfunc x of
           Inl e \<Rightarrow> ([], Some e)
         | Inr ordval \<Rightarrow>
             if ordval = PNone then drop_unsorted (xs, fault) orderfunc
             else (x # fst (drop_unsorted (xs, fault) orderfunc),
                   snd (drop_unsorted (xs, fault) orderfunc))))"

text \<open>
  \<^verbatim>\<open>_peek_iter\<close>: the first item, or \<^verbatim>\<open>None\<close> when the iterator is exhausted;
  the iterator still yields every item. Pulling the first item raises what an iterator
  with no item ends with.
\<close>

fun peek_iter :: "stream \<Rightarrow> exn + (pyval \<times> stream)" where
  "peek_iter ([], Some e) = Inl e"
| "peek_iter ([], None) = Inr (PNone, ([], None))"
| "peek_iter (x # xs, fault) = Inr (x, (x # xs, fault))"

text \<open>
  \<^verbatim>\<open>_wrap_unsorted\<close> consumes the iterator at once and returns the list of the
  unsortable items and the list of the sortable ones, each in the order of the input.
\<close>

fun wrap_unsorted :: "stream \<Rightarrow> orderfunc \<Rightarrow> exn + (pyval list \<times> pyval list)" where
  "wrap_unsorted ([], fault) orderfunc =
     (case fault of Some e \<Rightarrow> Inl e | None \<Rightarrow> Inr ([], []))"
| "wrap_unsorted (x # xs, fault) orderfunc =
     (if is_unsortable x then
        (case wrap_unsorted (xs, fault) orderfunc of
           Inl e \<Rightarrow> Inl e
         | Inr (unsortable, sortable) \<Rightarrow> Inr (x # unsortable, sortable))
      else
        (case orderfunc x of
           Inl e \<Rightarrow> Inl e
         | Inr ordval \<Rightarrow>
             (case wrap_unsorted (xs, fault) orderfunc of
                Inl e \<Rightarrow> Inl e
              | Inr (unsortable, sortable) \<Rightarrow>
                  if ordval = PNone then Inr (Unsortable x # unsortable, sortable)
                  else Inr (unsortable, x # sortable))))"

definition handle_unsorted ::
  "stream \<Rightarrow> orderfunc \<Rightarrow> bool \<Rightarrow> bool \<Rightarrow> exn + (pyval list \<times> stream)" where
  "handle_unsorted itr orderfunc drop_flag wrap_flag =
     (if drop_flag then Inr ([], drop_unsorted itr orderfunc)
      else if wrap_flag then
        (case wrap_unsorted itr orderfunc of
           Inl e \<Rightarrow> Inl e
         | Inr (unsortable, sortable) \<Rightarrow> Inr (unsortable, (sortable, None)))
      else Inr ([], itr))"

subsection \<open>Choosing the order function\<close>

text \<open>
  The loop of \<^verbatim>\<open>_generate_order_value_func\<close> over a copy of the stream: one order
  function per shape key, built from the first item of that shape.
\<close>

fun order_by_lookup_loop ::
  "pyval list \<Rightarrow> pred \<Rightarrow> pyval \<Rightarrow> (shape_key \<rightharpoonup> orderfunc) \<Rightarrow> diag list
     \<Rightarrow> diag list \<times> (exn + (shape_key \<rightharpoonup> orderfunc))" where
  "order_by_lookup_loop [] order_value d order_by_lookup ws = (ws, Inr order_by_lookup)"
| "order_by_lookup_loop (obj_res # rest) order_value d order_by_lookup ws =
     (let key = determine_order_by_value_key obj_res in
      if order_by_lookup key \<noteq> None then
        order_by_lookup_loop rest order_value d order_by_lookup ws
      else
        (case generate_order_by_func obj_res None (Some order_value) d True of
           Inl e \<Rightarrow> (ws, Inl e)
         | Inr (ws', None) \<Rightarrow> (ws @ ws', Inl AssertionError)
         | Inr (ws', Some keyfunc) \<Rightarrow>
             order_by_lookup_loop rest order_value d
               (order_by_lookup(key \<mapsto> keyfunc)) (ws @ ws')))"

definition dispatch :: "(shape_key \<rightharpoonup> orderfunc) \<Rightarrow> orderfunc" where
  "dispatch order_by_lookup = (\<lambda>x.
     case order_by_lookup (determine_order_by_value_key x) of
       None \<Rightarrow> Inl KeyError
     | Some keyfunc \<Rightarrow> keyfunc x)"

definition generate_order_value_func ::
  "stream \<Rightarrow> pred \<Rightarrow> pyval \<Rightarrow> diag list \<times> (exn + orderfunc)" where
  "generate_order_value_func itr order_value d =
     (case order_by_lookup_loop (fst itr) order_value d Map.empty [] of
        (ws, Inl e) \<Rightarrow> (ws, Inl e)
      | (ws, Inr order_by_lookup) \<Rightarrow>
          (case snd itr of
             Some e \<Rightarrow> (ws, Inl e)
           | None \<Rightarrow> (ws, Inr (dispatch order_by_lookup))))"

definition handle_generate_order_by ::
  "stream \<Rightarrow> orderfunc option \<Rightarrow> string option \<Rightarrow> pred option \<Rightarrow> pyval
     \<Rightarrow> diag list \<times> (exn + (orderfunc option \<times> stream))" where
  "handle_generate_order_by itr order_by order_key order_value d =
     (case order_by of
        Some f \<Rightarrow> ([], Inr (Some f, itr))
      | None \<Rightarrow>
     (case order_key of
        Some k \<Rightarrow>
          (case peek_iter itr of
             Inl e \<Rightarrow> ([], Inl e)
           | Inr (first_item, itr') \<Rightarrow>
               if first_item = PNone then ([], Inr (None, itr'))
               else
                 (case generate_order_by_func first_item (Some k) None d False of
                    Inl e \<Rightarrow> ([], Inl e)
                  | Inr (ws, None) \<Rightarrow> (ws, Inl (QueryException (CouldNotFind k first_item)))
                  | Inr (ws, Some f) \<Rightarrow> (ws, Inr (Some f, itr'))))
      | None \<Rightarrow>
     (case order_value of
        Some w \<Rightarrow>
          (case generate_order_value_func itr w d of
             (ws, Inl e) \<Rightarrow> (ws, Inl e)
           | (ws, Inr f) \<Rightarrow> (ws, Inr (Some f, itr)))
      | None \<Rightarrow> ([], Inl (QueryException NoOrderArgs)))))"

subsection \<open>Sorting\<close>

text \<open>
  The builtin \<^verbatim>\<open><\<close> on order values: defined between two integers, two strings and
  two datetimes, TypeError on every other pair (so on \<^verbatim>\<open>None\<close>). Python also
  compares named tuples as tuples; the model leaves that out.
\<close>

fun py_lt :: "pyval \<Rightarrow> pyval \<Rightarrow> exn + bool" where
  "py_lt (PInt a) (PInt b) = Inr (a < b)"
| "py_lt (PStr a) (PStr b) = Inr (a < b)"
| "py_lt (PDatetime a) (PDatetime b) = Inr (a < b)"
| "py_lt a b = Inl TypeError"

text \<open>
  The builtin \<^verbatim>\<open>sorted(itr, key=f, reverse=r)\<close>: the iterator is consumed, the key
  of every item is computed once, in order, and the pairs of key and item are sorted by
  a stable sort that compares keys with \<^verbatim>\<open><\<close> only; a comparison that raises ends the
  sort. With \<^verbatim>\<open>reverse\<close> the list is reversed before and after the sort, which keeps
  items of equal keys in the order of the input.
\<close>

fun keyed :: "orderfunc \<Rightarrow> pyval list \<Rightarrow> exn + (pyval \<times> pyval) list" where
  "keyed f [] = Inr []"
| "keyed f (x # xs) =
     (case f x of
        Inl e \<Rightarrow> Inl e
      | Inr k \<Rightarrow> (case keyed f xs of Inl e \<Rightarrow> Inl e | Inr kxs \<Rightarrow> Inr ((k, x) # kxs)))"

fun insort_lt :: "pyval \<times> pyval \<Rightarrow> (pyval \<times> pyval) list \<Rightarrow> exn + (pyval \<times> pyval) list" where
  "insort_lt kx [] = Inr [kx]"
| "insort_lt kx (ky # kys) =
     (case py_lt (fst ky) (fst kx) of
        Inl e \<Rightarrow> Inl e
      | Inr True \<Rightarrow> (case insort_lt kx kys of Inl e \<Rightarrow> Inl e | Inr r \<Rightarrow> Inr (ky # r))
      | Inr False \<Rightarrow> Inr (kx # ky # kys))"

fun sort_keyed :: "(pyval \<times> pyval) list \<Rightarrow> exn + (pyval \<times> pyval) list" where
  "sort_keyed [] = Inr []"
| "sort_keyed (kx # kxs) =
     (case sort_keyed kxs of Inl e \<Rightarrow> Inl e | Inr r \<Rightarrow> insort_lt kx r)"

definition py_sorted :: "stream \<Rightarrow> orderfunc \<Rightarrow> bool \<Rightarrow> exn + pyval list" where
  "py_sorted itr f rev_flag =
     (case snd itr of
        Some e \<Rightarrow> Inl e
      | None \<Rightarrow>
          (case keyed f (fst itr) of
             Inl e \<Rightarrow> Inl e
           | Inr kxs \<Rightarrow>
               (case sort_keyed (if rev_flag then rev kxs else kxs) of
                  Inl e \<Rightarrow> Inl e
                | Inr r \<Rightarrow> Inr (map snd (if rev_flag then rev r else r)))))"

subsection \<open>select\<close>

text \<open>
  The source of a call: an iterable with its items, a function of no argument with what
  it returns, or a value that is neither. Iterating the items of an iterable source does
  not raise.
\<close>

datatype source = Iterable "pyval list" | Callable source | NotIterable

record select_args =
  src :: source
  where_fn :: "pred option"
  order_by :: "orderfunc option"
  order_key :: "string option"
  order_value :: "pred option"
  default_val :: pyval
  reverse :: bool
  limit :: "int option"
  drop_unsorted_arg :: bool
  wrap_unsorted_arg :: bool
  warn_exceptions :: bool
  drop_exceptions :: bool
  raise_exceptions :: bool

text \<open>
  The head of \<^verbatim>\<open>select\<close>: a callable source is called, a source that is not an
  iterable is reported with \<^verbatim>\<open>low\<close>, and \<^verbatim>\<open>iter\<close> of what is not an
  iterable raises the QueryException.
\<close>

fun iter_src :: "source \<Rightarrow> diag list \<times> (exn + stream)" where
  "iter_src (Iterable xs) = ([], Inr (xs, None))"
| "iter_src (Callable (Iterable xs)) = ([], Inr (xs, None))"
| "iter_src (Callable s) = ([], Inl (QueryException NotAnIterator))"
| "iter_src NotIterable = ([LowNotIterable], Inl (QueryException NotAnIterator))"

definition apply_limit :: "int option \<Rightarrow> stream \<Rightarrow> exn + stream" where
  "apply_limit lim itr = (case lim of None \<Rightarrow> Inr itr | Some n \<Rightarrow> islice itr n)"

text \<open>The stream after the error policies and the \<^verbatim>\<open>where\<close> filter.\<close>

definition filtered :: "select_args \<Rightarrow> stream \<Rightarrow> stream" where
  "filtered a itr0 =
     (let itr = (if raise_exceptions a then err_raise_exceptions itr0 else itr0);
          itr = (if drop_exceptions a then err_drop_exceptions itr else itr);
          itr = (if warn_exceptions a then err_warn_exceptions itr else itr)
      in case where_fn a of None \<Rightarrow> itr | Some w \<Rightarrow> filter_itr w itr)"

definition select :: "select_args \<Rightarrow> diag list \<times> (exn + stream)" where
  "select a =
     (case iter_src (src a) of
        (ws0, Inl e) \<Rightarrow> (ws0, Inl e)
      | (ws0, Inr itr0) \<Rightarrow>
          (let itr = filtered a itr0 in
           if order_by a \<noteq> None \<or> order_key a \<noteq> None \<or> order_value a \<noteq> None then
             (case handle_generate_order_by itr (order_by a) (order_key a) (order_value a)
                     (default_val a) of
                (ws, Inl e) \<Rightarrow> (ws0 @ ws, Inl e)
              | (ws, Inr (None, itr1)) \<Rightarrow> (ws0 @ ws, Inr itr1)
              | (ws, Inr (Some order_by_chosen, itr1)) \<Rightarrow>
                  (ws0 @ ws,
                   (case handle_unsorted itr1 order_by_chosen
                           (drop_unsorted_arg a) (wrap_unsorted_arg a) of
                      Inl e \<Rightarrow> Inl e
                    | Inr (unsortable, itr2) \<Rightarrow>
                        (case py_sorted itr2 order_by_chosen (reverse a) of
                           Inl e \<Rightarrow> Inl e
                         | Inr srt \<Rightarrow>
                             apply_limit (limit a)
                               (if reverse a then (srt @ unsortable, None)
                                else (unsortable @ srt, None))))))
           else
             (ws0,
              (case (if reverse a then always_reversible itr else Inr itr) of
                 Inl e \<Rightarrow> Inl e
               | Inr itr1 \<Rightarrow> apply_limit (limit a) itr1))))"

text \<open>
  \<^verbatim>\<open>list(select(...))\<close>: what the call raises, or what consuming the returned
  iterator raises, or the list of the items it yields.
\<close>

definition consume :: "exn + stream \<Rightarrow> exn + pyval list" where
  "consume r =
     (case r of
        Inl e \<Rightarrow> Inl e
      | Inr (xs, Some e) \<Rightarrow> Inl e
      | Inr (xs, None) \<Rightarrow> Inr xs)"

definition select_list :: "select_args \<Rightarrow> exn + pyval list" where
  "select_list a = consume (snd (select a))"

subsection \<open>Notions used to state the properties\<close>

text \<open>
  The predicate of the tests, \<^verbatim>\<open>lambda o: isinstance(o, datetime)\<close>, used as a concrete
  \<^verbatim>\<open>where\<close> and \<^verbatim>\<open>order_value\<close> argument.
\<close>

fun is_datetime :: "pyval \<Rightarrow> bool" where
  "is_datetime (PDatetime t) = True"
| "is_datetime v = False"

text \<open>The keyword arguments of \<^verbatim>\<open>select\<close> at their defaults, with an empty source.\<close>

definition default_args :: select_args where
  "default_args =
     \<lparr> src = Iterable [], where_fn = None, order_by = None, order_key = None,
       order_value = None, default_val = PNone, reverse = False, limit = None,
       drop_unsorted_arg = False, wrap_unsorted_arg = True, warn_exceptions = False,
       drop_exceptions = False, raise_exceptions = False \<rparr>"

text \<open>
  An item is kept by \<^verbatim>\<open>drop_exceptions\<close> and the \<^verbatim>\<open>where\<close> filter when it is
  not an exception to drop and satisfies the predicate, if there is one.
\<close>

definition kept :: "select_args \<Rightarrow> pyval \<Rightarrow> bool" where
  "kept a x = ((drop_exceptions a \<longrightarrow> \<not> is_exception x)
               \<and> (case where_fn a of None \<Rightarrow> True | Some w \<Rightarrow> w x))"

text \<open>A list cut to a limit, when there is one.\<close>

definition truncated :: "int option \<Rightarrow> pyval list \<Rightarrow> pyval list" where
  "truncated lim xs = (case lim of None \<Rightarrow> xs | Some n \<Rightarrow> take (nat n) xs)"

text \<open>The item inside a marker (\<^verbatim>\<open>Unsortable.obj\<close>); any other item is itself.\<close>

fun unwrapped :: "pyval \<Rightarrow> pyval" where
  "unwrapped (Unsortable x) = x"
| "unwrapped v = v"

text \<open>A marker that wraps a marker.\<close>

fun double_wrapped :: "pyval \<Rightarrow> bool" where
  "double_wrapped (Unsortable (Unsortable x)) = True"
| "double_wrapped v = False"



section \<open>Lemmas\<close>

subsection \<open>The attribute locator\<close>

lemma first_where_mem: "first_where w kvs = Some k \<Longrightarrow> \<exists>v. (k, v) \<in> set kvs \<and> w v"
  by (induction w kvs rule: first_where.induct) (auto split: if_splits)

lemma first_field_mem:
  "first_field obj w ns = Inr (Some n) \<Longrightarrow> \<exists>v. map_of (getmembers obj) n = Some v \<and> w v"
  by (induction obj w ns rule: first_field.induct)
     (auto simp: getattr_def split: if_splits option.splits sum.splits)

lemma attribute_func_shape:
  assumes "attribute_func b w d = Inr (Some f)"
  shows "(is_dict b \<and> (\<exists>k v. f = dict_get k d \<and> (k, v) \<in> set (dict_items b) \<and> w v))
       \<or> (\<exists>k v. f = getattr_default k d \<and> (k, v) \<in> set (getmembers b) \<and> w v)"
  using assms
  by (auto simp: attribute_func_def Let_def split: if_splits option.splits sum.splits
       dest!: first_where_mem first_field_mem map_of_SomeD)

subsection \<open>Sorting\<close>

lemma py_lt_irrefl: "py_lt k k \<noteq> Inr True"
  by (cases k) simp_all

lemma insort_lt_mset: "insort_lt kx r = Inr r' \<Longrightarrow> mset r' = add_mset kx (mset r)"
  by (induction r arbitrary: r') (auto split: sum.splits bool.splits)

lemma sort_keyed_mset: "sort_keyed kxs = Inr r \<Longrightarrow> mset r = mset kxs"
  by (induction kxs arbitrary: r) (auto split: sum.splits dest: insort_lt_mset)

lemma insort_lt_filter:
  "insort_lt kx r = Inr r' \<Longrightarrow>
     filter (\<lambda>p. fst p = v) r' = (if fst kx = v then kx # filter (\<lambda>p. fst p = v) r else filter (\<lambda>p. fst p = v) r)"
proof (induction r arbitrary: r')
  case Nil
  then show ?case by auto
next
  case (Cons ky r)
  show ?case
  proof (cases "py_lt (fst ky) (fst kx)")
    case (Inl e)
    with Cons.prems show ?thesis by simp
  next
    case (Inr b)
    show ?thesis
    proof (cases b)
      case True
      with Inr have ne: "fst ky \<noteq> fst kx" using py_lt_irrefl by metis
      from True Inr Cons.prems obtain r0 where r0: "insort_lt kx r = Inr r0" "r' = ky # r0"
        by (auto split: sum.splits)
      from Cons.IH[OF r0(1)] ne r0(2) show ?thesis by auto
    next
      case False
      with Inr Cons.prems show ?thesis by auto
    qed
  qed
qed

lemma sort_keyed_stable:
  "sort_keyed kxs = Inr r \<Longrightarrow> filter (\<lambda>p. fst p = v) r = filter (\<lambda>p. fst p = v) kxs"
proof (induction kxs arbitrary: r)
  case Nil
  then show ?case by simp
next
  case (Cons kx kxs)
  then obtain r0 where r0: "sort_keyed kxs = Inr r0" "insort_lt kx r0 = Inr r"
    by (auto split: sum.splits)
  from insort_lt_filter[OF r0(2), of v] Cons.IH[OF r0(1)] show ?case by simp
qed

lemma keyed_map_snd: "keyed f xs = Inr kxs \<Longrightarrow> map snd kxs = xs"
  by (induction xs arbitrary: kxs) (auto split: sum.splits)

lemma keyed_keys: "keyed f xs = Inr kxs \<Longrightarrow> \<forall>p\<in>set kxs. f (snd p) = Inr (fst p)"
  by (induction xs arbitrary: kxs) (auto split: sum.splits)

lemma py_sorted_Inr:
  "py_sorted itr f rf = Inr out \<Longrightarrow>
     snd itr = None \<and> (\<exists>kxs r. keyed f (fst itr) = Inr kxs
        \<and> sort_keyed (if rf then rev kxs else kxs) = Inr r
        \<and> out = map snd (if rf then rev r else r))"
  by (auto simp: py_sorted_def split: option.splits sum.splits)

lemma py_sorted_mset:
  assumes "py_sorted itr f rf = Inr out"
  shows "mset out = mset (fst itr)"
proof -
  from py_sorted_Inr[OF assms] obtain kxs r where
    k: "keyed f (fst itr) = Inr kxs" and
    s: "sort_keyed (if rf then rev kxs else kxs) = Inr r" and
    out: "out = map snd (if rf then rev r else r)" by blast
  from sort_keyed_mset[OF s] have "mset r = mset kxs" by (simp split: if_splits)
  then have "mset (map snd r) = mset (map snd kxs)" by (metis mset_map)
  with out keyed_map_snd[OF k] show ?thesis by (simp split: if_splits flip: rev_map)
qed

lemma py_sorted_stable:
  assumes "py_sorted itr f rf = Inr out"
  shows "filter (\<lambda>x. f x = Inr v) out = filter (\<lambda>x. f x = Inr v) (fst itr)"
proof -
  from py_sorted_Inr[OF assms] obtain kxs r where
    k: "keyed f (fst itr) = Inr kxs" and
    s: "sort_keyed (if rf then rev kxs else kxs) = Inr r" and
    out: "out = map snd (if rf then rev r else r)" by blast
  have keys: "\<forall>p\<in>set kxs. f (snd p) = Inr (fst p)" by (rule keyed_keys[OF k])
  from sort_keyed_mset[OF s] have "set r = set kxs"
    by (metis mset_eq_setD set_rev)
  with keys have keys_r: "\<forall>p\<in>set r. f (snd p) = Inr (fst p)" by simp
  have conv: "filter (\<lambda>x. f x = Inr v) (map snd l) = map snd (filter (\<lambda>p. fst p = v) l)"
    if "\<forall>p\<in>set l. f (snd p) = Inr (fst p)" for l
    using that by (induction l) auto
  have st: "filter (\<lambda>p. fst p = v) r = filter (\<lambda>p. fst p = v) (if rf then rev kxs else kxs)"
    by (rule sort_keyed_stable[OF s])
  have "filter (\<lambda>x. f x = Inr v) (map snd kxs) = map snd (filter (\<lambda>p. fst p = v) kxs)"
    by (rule conv[OF keys])
  moreover have "filter (\<lambda>x. f x = Inr v) (map snd r) = map snd (filter (\<lambda>p. fst p = v) r)"
    by (rule conv[OF keys_r])
  ultimately have "filter (\<lambda>x. f x = Inr v) (map snd (if rf then rev r else r))
      = filter (\<lambda>x. f x = Inr v) (map snd kxs)"
  proof (cases rf)
    case True
    assume a: "filter (\<lambda>x. f x = Inr v) (map snd kxs) = map snd (filter (\<lambda>p. fst p = v) kxs)"
      and b: "filter (\<lambda>x. f x = Inr v) (map snd r) = map snd (filter (\<lambda>p. fst p = v) r)"
    have "filter (\<lambda>x. f x = Inr v) (map snd (rev r)) = rev (filter (\<lambda>x. f x = Inr v) (map snd r))"
      by (simp add: rev_map rev_filter)
    also have "\<dots> = rev (map snd (filter (\<lambda>p. fst p = v) (rev kxs)))"
      using b st True by simp
    also have "\<dots> = map snd (filter (\<lambda>p. fst p = v) kxs)"
      by (simp add: rev_map rev_filter)
    finally show ?thesis using a True by simp
  next
    case False
    assume a: "filter (\<lambda>x. f x = Inr v) (map snd kxs) = map snd (filter (\<lambda>p. fst p = v) kxs)"
      and b: "filter (\<lambda>x. f x = Inr v) (map snd r) = map snd (filter (\<lambda>p. fst p = v) r)"
    with st False show ?thesis by simp
  qed
  with out keyed_map_snd[OF k] show ?thesis by simp
qed








subsection \<open>Streams and the partitioners\<close>

lemma iter_src_Inr: "iter_src s = (ws, Inr itr) \<Longrightarrow> ws = [] \<and> snd itr = None"
  by (induction s rule: iter_src.induct) auto

lemma err_raise_exceptions_eq:
  "err_raise_exceptions (xs, None) =
     (takeWhile (\<lambda>x. \<not> is_exception x) xs,
      case find is_exception xs of None \<Rightarrow> None | Some e \<Rightarrow> Some (Raised e))"
  by (induction xs) auto

lemma filtered_eq:
  "filtered a (xs, None) =
     (filter (kept a) (if raise_exceptions a then takeWhile (\<lambda>x. \<not> is_exception x) xs else xs),
      if raise_exceptions a
      then (case find is_exception xs of None \<Rightarrow> None | Some e \<Rightarrow> Some (Raised e))
      else None)"
  by (auto simp: filtered_def err_raise_exceptions_eq err_drop_exceptions_def
        err_warn_exceptions_def filter_itr_def kept_def Let_def
        split: option.splits intro: filter_cong)

lemma filter_takeWhile_all:
  "\<forall>x\<in>set xs. \<not> P x \<Longrightarrow> filter Q (takeWhile (\<lambda>x. \<not> P x) xs) = filter Q xs"
  by (induction xs) auto

lemma filtered_complete:
  assumes "filtered a (xs, None) = (ys, None)"
  shows "ys = filter (kept a) xs"
proof (cases "raise_exceptions a")
  case True
  with assms have "\<forall>x\<in>set xs. \<not> is_exception x"
    by (auto simp: filtered_eq find_None_iff split: option.splits)
  from filter_takeWhile_all[OF this] assms True show ?thesis by (simp add: filtered_eq)
next
  case False
  with assms show ?thesis by (simp add: filtered_eq)
qed

lemma filtered_subset: "filtered a (xs, None) = (ys, fault) \<Longrightarrow> set ys \<subseteq> set xs"
  by (auto simp: filtered_eq split: if_splits dest: set_takeWhileD)

lemma filtered_reverse [simp]: "filtered (a\<lparr>reverse := b\<rparr>) itr = filtered a itr"
  by (simp add: filtered_def)

lemma kept_reverse [simp]: "kept (a\<lparr>reverse := b\<rparr>) = kept a"
  by (rule ext) (simp add: kept_def)

lemma unwrapped_id: "\<not> is_unsortable x \<Longrightarrow> unwrapped x = x"
  by (cases x) auto

lemma unwrapped_wrap:
  "unwrapped (if is_unsortable x then x else Unsortable x) = unwrapped x"
  by (simp add: unwrapped_id)

lemma mset_map_partition:
  "mset (map g (filter (\<lambda>x. \<not> Q x) xs)) + mset (map g (filter Q xs)) = mset (map g xs)"
  by (induction xs) auto

lemma apply_limit_Inr:
  "apply_limit l (ys, f) = Inr (out, f') \<Longrightarrow> prefix out ys \<and> (l = None \<longrightarrow> out = ys \<and> f' = f)"
  by (auto simp: apply_limit_def islice_def take_is_prefix split: option.splits if_splits)

lemma wrap_unsorted_Inr:
  "wrap_unsorted (xs, fault) f = Inr (us, ss) \<Longrightarrow>
     fault = None
     \<and> ss = filter (\<lambda>x. \<not> is_unsortable x \<and> f x \<noteq> Inr PNone) xs
     \<and> us = map (\<lambda>x. if is_unsortable x then x else Unsortable x)
              (filter (\<lambda>x. is_unsortable x \<or> f x = Inr PNone) xs)"
proof (induction xs arbitrary: us ss)
  case Nil
  then show ?case by (auto split: option.splits)
next
  case (Cons x xs)
  then show ?case
    by (auto split: if_splits sum.splits prod.splits)
qed

lemma drop_unsorted_Inr:
  "drop_unsorted (xs, fault) f = (ss, None) \<Longrightarrow>
     fault = None \<and> ss = filter (\<lambda>x. \<not> is_unsortable x \<and> f x \<noteq> Inr PNone) xs"
proof (induction xs arbitrary: ss)
  case Nil
  then show ?case by auto
next
  case (Cons x xs)
  then show ?case
    by (auto split: if_splits sum.splits prod.splits simp: prod_eq_iff)
qed




lemma handle_unsorted_sorted:
  assumes h: "handle_unsorted (ys, fault) f d w = Inr (us, itr2)"
      and s: "py_sorted itr2 f rf = Inr srt"
  shows "fault = None"
    and "\<forall>u\<in>set us. is_unsortable u \<and> (\<exists>x\<in>set ys. u = x \<or> (\<not> is_unsortable x \<and> u = Unsortable x))"
    and "set srt \<subseteq> set ys"
    and "\<not> d \<Longrightarrow> mset (map unwrapped (us @ srt)) = mset (map unwrapped ys)"
    and "v \<noteq> PNone \<Longrightarrow>
           filter (\<lambda>x. \<not> is_unsortable x \<and> f x = Inr v) srt
             = filter (\<lambda>x. \<not> is_unsortable x \<and> f x = Inr v) ys"
proof -
  from py_sorted_Inr[OF s] have n2: "snd itr2 = None" by simp
  have m: "mset srt = mset (fst itr2)" by (rule py_sorted_mset[OF s])
  then have set2: "set srt = set (fst itr2)" by (rule mset_eq_setD)
  have st: "filter (\<lambda>x. f x = Inr v) srt = filter (\<lambda>x. f x = Inr v) (fst itr2)"
    by (rule py_sorted_stable[OF s])
  have st': "filter (\<lambda>x. \<not> is_unsortable x \<and> f x = Inr v) srt
      = filter (\<lambda>x. \<not> is_unsortable x \<and> f x = Inr v) (fst itr2)"
  proof -
    have "filter (\<lambda>x. \<not> is_unsortable x) (filter (\<lambda>x. f x = Inr v) srt)
        = filter (\<lambda>x. \<not> is_unsortable x) (filter (\<lambda>x. f x = Inr v) (fst itr2))"
      using st by simp
    then show ?thesis by (simp add: conj_commute)
  qed
  consider (drop) "d" | (wrap) "\<not> d" "w" | (neither) "\<not> d" "\<not> w" by blast
  then have all: "fault = None
    \<and> (\<forall>u\<in>set us. is_unsortable u \<and> (\<exists>x\<in>set ys. u = x \<or> (\<not> is_unsortable x \<and> u = Unsortable x)))
    \<and> set srt \<subseteq> set ys
    \<and> (\<not> d \<longrightarrow> mset (map unwrapped (us @ srt)) = mset (map unwrapped ys))
    \<and> (v \<noteq> PNone \<longrightarrow> filter (\<lambda>x. \<not> is_unsortable x \<and> f x = Inr v) srt
             = filter (\<lambda>x. \<not> is_unsortable x \<and> f x = Inr v) ys)"
  proof cases
    case drop
    with h have us: "us = []" and i2: "itr2 = drop_unsorted (ys, fault) f"
      by (auto simp: handle_unsorted_def)
    from i2 n2 have "drop_unsorted (ys, fault) f = (fst itr2, None)" by (simp add: prod_eq_iff)
    from drop_unsorted_Inr[OF this]
    have f: "fault = None" and ss: "fst itr2 = filter (\<lambda>x. \<not> is_unsortable x \<and> f x \<noteq> Inr PNone) ys"
      by simp_all
    have "filter (\<lambda>x. \<not> is_unsortable x \<and> f x = Inr v) (fst itr2)
        = filter (\<lambda>x. \<not> is_unsortable x \<and> f x = Inr v) ys" if "v \<noteq> PNone"
      unfolding ss using that by (auto intro: filter_cong)
    with f us ss set2 st' drop show ?thesis by auto
  next
    case wrap
    with h obtain ss where wu: "wrap_unsorted (ys, fault) f = Inr (us, ss)" and i2: "itr2 = (ss, None)"
      by (auto simp: handle_unsorted_def split: sum.splits)
    from wrap_unsorted_Inr[OF wu]
    have f: "fault = None"
      and ss: "ss = filter (\<lambda>x. \<not> is_unsortable x \<and> f x \<noteq> Inr PNone) ys"
      and us: "us = map (\<lambda>x. if is_unsortable x then x else Unsortable x)
              (filter (\<lambda>x. is_unsortable x \<or> f x = Inr PNone) ys)"
      by simp_all
    have u1: "\<forall>u\<in>set us. is_unsortable u \<and> (\<exists>x\<in>set ys. u = x \<or> (\<not> is_unsortable x \<and> u = Unsortable x))"
      unfolding us by auto
    have "mset (map unwrapped us) = mset (map unwrapped (filter (\<lambda>x. \<not> (\<not> is_unsortable x \<and> f x \<noteq> Inr PNone)) ys))"
      unfolding us by (simp add: o_def unwrapped_wrap del: unwrapped.simps)
    then have "mset (map unwrapped us) + mset (map unwrapped ss) = mset (map unwrapped ys)"
      unfolding ss by (simp only: mset_map_partition)
    moreover have "mset (map unwrapped srt) = mset (map unwrapped ss)"
      using m i2 by (metis fst_conv mset_map)
    ultimately have ms: "mset (map unwrapped (us @ srt)) = mset (map unwrapped ys)" by simp
    have "filter (\<lambda>x. \<not> is_unsortable x \<and> f x = Inr v) ss
        = filter (\<lambda>x. \<not> is_unsortable x \<and> f x = Inr v) ys" if "v \<noteq> PNone"
      unfolding ss using that by (auto intro: filter_cong)
    with f u1 ms ss set2 st' i2 show ?thesis by auto
  next
    case neither
    with h have us: "us = []" and i2: "itr2 = (ys, fault)"
      by (auto simp: handle_unsorted_def)
    with n2 have f: "fault = None" by simp
    from m i2 have "mset (map unwrapped srt) = mset (map unwrapped ys)" by (metis fst_conv mset_map)
    with f us i2 set2 st' show ?thesis by auto
  qed
  from all show "fault = None" by blast
  from all show "\<forall>u\<in>set us. is_unsortable u \<and> (\<exists>x\<in>set ys. u = x \<or> (\<not> is_unsortable x \<and> u = Unsortable x))" by blast
  from all show "set srt \<subseteq> set ys" by blast
  from all show "\<not> d \<Longrightarrow> mset (map unwrapped (us @ srt)) = mset (map unwrapped ys)" by blast
  from all show "v \<noteq> PNone \<Longrightarrow>
           filter (\<lambda>x. \<not> is_unsortable x \<and> f x = Inr v) srt
             = filter (\<lambda>x. \<not> is_unsortable x \<and> f x = Inr v) ys" by blast
qed

subsection \<open>The branches of select\<close>

lemma hgob_itr:
  "handle_generate_order_by itr ob ok ov d = (ws, Inr (fo, itr1)) \<Longrightarrow> itr1 = itr"
  by (cases itr rule: peek_iter.cases)
     (auto simp: handle_generate_order_by_def split: option.splits sum.splits if_splits prod.splits)

lemma select_no_order:
  assumes "order_by a = None" "order_key a = None" "order_value a = None"
      and "iter_src (src a) = (ws, Inr (xs, None))"
  shows "select a = ([],
           case (if reverse a then always_reversible (filtered a (xs, None)) else Inr (filtered a (xs, None))) of
             Inl e \<Rightarrow> Inl e | Inr itr1 \<Rightarrow> apply_limit (limit a) itr1)"
  using assms iter_src_Inr[OF assms(4)] by (simp add: select_def)

lemma select_ordered_cases:
  assumes src: "iter_src (src a) = (ws0, Inr (xs, None))"
      and ord: "order_by a \<noteq> None \<or> order_key a \<noteq> None \<or> order_value a \<noteq> None"
      and res: "snd (select a) = Inr res"
  obtains (early) ws where
      "handle_generate_order_by (filtered a (xs, None)) (order_by a) (order_key a) (order_value a)
         (default_val a) = (ws, Inr (None, filtered a (xs, None)))"
      "res = filtered a (xs, None)"
    | (sorted) ws f us itr2 srt where
      "handle_generate_order_by (filtered a (xs, None)) (order_by a) (order_key a) (order_value a)
         (default_val a) = (ws, Inr (Some f, filtered a (xs, None)))"
      "handle_unsorted (filtered a (xs, None)) f (drop_unsorted_arg a) (wrap_unsorted_arg a)
         = Inr (us, itr2)"
      "py_sorted itr2 f (reverse a) = Inr srt"
      "apply_limit (limit a) (if reverse a then srt @ us else us @ srt, None) = Inr res"
proof -
  obtain ws r where h: "handle_generate_order_by (filtered a (xs, None)) (order_by a) (order_key a)
      (order_value a) (default_val a) = (ws, r)" by (cases "handle_generate_order_by (filtered a (xs, None)) (order_by a) (order_key a)
      (order_value a) (default_val a)") 
  show thesis
  proof (cases r)
    case (Inl e)
    with h src ord res show ?thesis by (auto simp: select_def)
  next
    case (Inr p)
    obtain fo itr1 where p: "p = (fo, itr1)" by (cases p)
    with h Inr have i: "itr1 = filtered a (xs, None)" using hgob_itr by blast
    show ?thesis
    proof (cases fo)
      case None
      with h Inr p i src ord res have "res = filtered a (xs, None)"
        by (auto simp: select_def)
      with early h Inr p i None show ?thesis by simp
    next
      case (Some f)
      with h Inr p i src ord res obtain us itr2 srt where
        "handle_unsorted (filtered a (xs, None)) f (drop_unsorted_arg a) (wrap_unsorted_arg a)
         = Inr (us, itr2)"
        "py_sorted itr2 f (reverse a) = Inr srt"
        "apply_limit (limit a) (if reverse a then srt @ us else us @ srt, None) = Inr res"
        by (auto simp: select_def split: sum.splits if_splits)
      with sorted h Inr p i Some show ?thesis by simp
    qed
  qed
qed

text \<open>The definitions that evaluate a call of \<^verbatim>\<open>select\<close> on concrete arguments.\<close>

lemmas select_eval = default_args_def select_def select_list_def consume_def filtered_def
  handle_generate_order_by_def handle_unsorted_def py_sorted_def apply_limit_def islice_def
  generate_order_by_func_def key_func_def default_func_def hasattr_def getattr_default_def
  dict_get_def filter_itr_def err_drop_exceptions_def err_warn_exceptions_def always_reversible_def
  generate_order_value_func_def dispatch_def determine_order_by_value_key_def attribute_func_def
  getattr_def kept_def truncated_def Let_def

section \<open>The claims\<close>

text \<open>
  Claim C1, as the code has it. When \<^verbatim>\<open>drop_exceptions\<close> and
  \<^verbatim>\<open>drop_unsorted\<close> are off, no limit is given and consuming the result of
  \<^verbatim>\<open>select\<close> yields the list \<open>out\<close>, then \<open>out\<close> has as many items as the
  input has items that satisfy \<^verbatim>\<open>where\<close> (all of them when there is no
  \<^verbatim>\<open>where\<close>), and it holds each of them exactly once, as it is or inside one
  \<^verbatim>\<open>Unsortable\<close>.
\<close>

theorem select_total_accounting:
  assumes src: "iter_src (src a) = (ws0, Inr (xs, None))"
      and nd: "\<not> drop_exceptions a" "\<not> drop_unsorted_arg a"
      and lim: "limit a = None"
      and res: "select_list a = Inr out"
  shows "mset (map unwrapped out) = mset (map unwrapped (filter (kept a) xs))
       \<and> length out = length (filter (kept a) xs)"
proof -
  from res obtain r where r: "snd (select a) = Inr (out, None)"
    by (auto simp: select_list_def consume_def split: sum.splits option.splits)
  have m: "mset (map unwrapped out) = mset (map unwrapped (filter (kept a) xs))"
  proof (cases "order_by a \<noteq> None \<or> order_key a \<noteq> None \<or> order_value a \<noteq> None")
    case False
    then have no: "order_by a = None" "order_key a = None" "order_value a = None" by auto
    obtain ys fl where fy: "filtered a (xs, None) = (ys, fl)" by (cases "filtered a (xs, None)")
    from r select_no_order[OF no src] fy lim
    have "fl = None \<and> (out = ys \<or> out = rev ys)"
      by (auto simp: always_reversible_def apply_limit_def split: if_splits option.splits)
    with filtered_complete fy show ?thesis by auto
  next
    case True
    from src True r show ?thesis
    proof (cases rule: select_ordered_cases)
      case (early ws)
      with filtered_complete[of a xs out] show ?thesis by simp
    next
      case (sorted ws f us itr2 srt)
      obtain ys fl where fy: "filtered a (xs, None) = (ys, fl)" by (cases "filtered a (xs, None)")
      from sorted(2) fy have hs: "handle_unsorted (ys, fl) f (drop_unsorted_arg a) (wrap_unsorted_arg a) = Inr (us, itr2)"
        by simp
      from handle_unsorted_sorted(1)[OF hs sorted(3)] have "fl = None" .
      with fy filtered_complete have ys: "ys = filter (kept a) xs" by simp
      from handle_unsorted_sorted(4)[OF hs sorted(3) nd(2)]
      have ms: "mset (map unwrapped (us @ srt)) = mset (map unwrapped ys)" .
      from sorted(4) lim have "out = (if reverse a then srt @ us else us @ srt)"
        by (simp add: apply_limit_def)
      with ms ys show ?thesis by (auto simp: ac_simps)
    qed
  qed
  have "length (map unwrapped out) = length (map unwrapped (filter (kept a) xs))"
    by (rule mset_eq_length[OF m])
  then have "length out = length (filter (kept a) xs)" by (simp only: length_map)
  with m show ?thesis by simp
qed

theorem select_total_accounting_witness:
  "select_list (default_args\<lparr>src := Iterable
          [PObj NamedTuple ''_Int'' [''x''] [(''x'', PInt 2)],
           PObj NamedTuple ''_B'' [''y''] [(''y'', PDatetime 2015)],
           PObj NamedTuple ''_Int'' [''x''] [(''x'', PInt 1)]],
        order_key := Some ''x''\<rparr>)
     = Inr [Unsortable (PObj NamedTuple ''_B'' [''y''] [(''y'', PDatetime 2015)]),
            PObj NamedTuple ''_Int'' [''x''] [(''x'', PInt 1)],
            PObj NamedTuple ''_Int'' [''x''] [(''x'', PInt 2)]]
   \<and> mset (map unwrapped
         [Unsortable (PObj NamedTuple ''_B'' [''y''] [(''y'', PDatetime 2015)]),
          PObj NamedTuple ''_Int'' [''x''] [(''x'', PInt 1)],
          PObj NamedTuple ''_Int'' [''x''] [(''x'', PInt 2)]])
     = mset [PObj NamedTuple ''_Int'' [''x''] [(''x'', PInt 2)],
           PObj NamedTuple ''_B'' [''y''] [(''y'', PDatetime 2015)],
           PObj NamedTuple ''_Int'' [''x''] [(''x'', PInt 1)]]"
proof -
  let ?xs = "[PObj NamedTuple ''_Int'' [''x''] [(''x'', PInt 2)],
           PObj NamedTuple ''_B'' [''y''] [(''y'', PDatetime 2015)],
           PObj NamedTuple ''_Int'' [''x''] [(''x'', PInt 1)]]"
  let ?out = "[Unsortable (PObj NamedTuple ''_B'' [''y''] [(''y'', PDatetime 2015)]),
            PObj NamedTuple ''_Int'' [''x''] [(''x'', PInt 1)],
            PObj NamedTuple ''_Int'' [''x''] [(''x'', PInt 2)]]"
  let ?a = "default_args\<lparr>src := Iterable ?xs, order_key := Some ''x''\<rparr>"
  have 1: "iter_src (src ?a) = ([], Inr (?xs, None))" by (simp add: default_args_def)
  have 2: "\<not> drop_exceptions ?a" "\<not> drop_unsorted_arg ?a" "limit ?a = None"
    by (simp_all add: default_args_def)
  have 3: "select_list ?a = Inr ?out" by (simp add: select_eval)
  have 4: "filter (kept ?a) ?xs = ?xs" by (simp add: kept_def default_args_def)
  from select_total_accounting[OF 1 2 3] 3 4 show ?thesis by simp
qed

text \<open>
  The claim as stated fails with a \<^verbatim>\<open>where\<close> filter and with a limit: one input
  item and no output item; two input items and one output item.
\<close>

theorem select_total_accounting_counterexample:
  "\<not> drop_exceptions (default_args\<lparr>src := Iterable [PInt 1], where_fn := Some is_datetime\<rparr>)
   \<and> \<not> drop_unsorted_arg (default_args\<lparr>src := Iterable [PInt 1], where_fn := Some is_datetime\<rparr>)
   \<and> select_list (default_args\<lparr>src := Iterable [PInt 1], where_fn := Some is_datetime\<rparr>) = Inr []
   \<and> \<not> drop_exceptions (default_args\<lparr>src := Iterable [PInt 1, PInt 2], limit := Some 1\<rparr>)
   \<and> \<not> drop_unsorted_arg (default_args\<lparr>src := Iterable [PInt 1, PInt 2], limit := Some 1\<rparr>)
   \<and> select_list (default_args\<lparr>src := Iterable [PInt 1, PInt 2], limit := Some 1\<rparr>) = Inr [PInt 1]"
  by (simp add: select_eval)

text \<open>
  Claim C2, as the code has it. The function that \<^verbatim>\<open>attribute_func\<close> builds from a
  record \<open>b\<close> does not raise on a record \<open>r\<close>, and returns a value stored in
  \<open>r\<close> or the default, whenever \<open>b\<close> is not a dict or \<open>r\<close> is a dict too. A
  function built from a dict calls \<^verbatim>\<open>o.get\<close>, which a record of another shape
  does not have.
\<close>

theorem attribute_func_cross_shape:
  assumes "attribute_func b w d = Inr (Some f)"
      and "is_dict b \<longrightarrow> is_dict r"
  shows "\<exists>v. f r = Inr v
           \<and> (v = d \<or> v \<in> snd ` set (dict_items r) \<or> v \<in> snd ` set (getmembers r))"
proof -
  have g: "\<exists>v. getattr_default k d r = Inr v \<and> (v = d \<or> v \<in> snd ` set (getmembers r))" for k
    by (auto simp: getattr_default_def split: option.splits dest!: map_of_SomeD intro: rev_image_eqI)
  have dg: "is_dict r \<Longrightarrow> \<exists>v. dict_get k d r = Inr v \<and> (v = d \<or> v \<in> snd ` set (dict_items r))" for k
    by (auto simp: dict_get_def split: option.splits dest!: map_of_SomeD intro: rev_image_eqI)
  from attribute_func_shape[OF assms(1)] assms(2) g dg show ?thesis by blast
qed

theorem attribute_func_cross_shape_witness:
  "attribute_func (PObj NamedTuple ''_B'' [''y''] [(''y'', PDatetime 2)]) is_datetime PNone
     = Inr (Some (getattr_default ''y'' PNone))
   \<and> \<not> is_dict (PObj NamedTuple ''_B'' [''y''] [(''y'', PDatetime 2)])
   \<and> (\<exists>v. getattr_default ''y'' PNone (PDict [(''t'', PDatetime 1)]) = Inr v
          \<and> (v = PNone \<or> v \<in> snd ` set (dict_items (PDict [(''t'', PDatetime 1)]))
               \<or> v \<in> snd ` set (getmembers (PDict [(''t'', PDatetime 1)]))))"
proof -
  have b: "attribute_func (PObj NamedTuple ''_B'' [''y''] [(''y'', PDatetime 2)]) is_datetime PNone
     = Inr (Some (getattr_default ''y'' PNone))"
    by (simp add: attribute_func_def getattr_def)
  have n: "is_dict (PObj NamedTuple ''_B'' [''y''] [(''y'', PDatetime 2)])
             \<longrightarrow> is_dict (PDict [(''t'', PDatetime 1)])"
    by simp
  from attribute_func_cross_shape[OF b n] b show ?thesis by simp
qed

text \<open>
  The claim as stated fails: the function built from a dict raises AttributeError on a
  named tuple.
\<close>

theorem attribute_func_cross_shape_counterexample:
  "attribute_func (PDict [(''t'', PDatetime 1)]) is_datetime PNone
     = Inr (Some (dict_get ''t'' PNone))
   \<and> dict_get ''t'' PNone (PObj NamedTuple ''_B'' [''y''] [(''y'', PDatetime 2)])
     = Inl AttributeError"
  by (simp add: attribute_func_def dict_get_def hasattr_def)

text \<open>
  Claim C3. Every item of the output of \<^verbatim>\<open>select\<close> is an item of the input,
  unchanged, or a new \<^verbatim>\<open>Unsortable\<close> around an input item that is not itself
  an \<^verbatim>\<open>Unsortable\<close>: a marker of the input is never wrapped again. So when no
  input item is a marker that wraps a marker, which holds for records, errors and the
  output of an earlier \<^verbatim>\<open>select\<close> over them, no output item is one. This holds
  for every combination of arguments and for the items yielded before a lazy result
  raises.
\<close>

theorem select_no_double_wrapping:
  assumes src: "iter_src (src a) = (ws0, Inr (xs, None))"
      and res: "snd (select a) = Inr (out, fault)"
  shows "(\<forall>y\<in>set out. y \<in> set xs \<or> (\<exists>x\<in>set xs. \<not> is_unsortable x \<and> y = Unsortable x))
       \<and> ((\<forall>x\<in>set xs. \<not> double_wrapped x) \<longrightarrow> (\<forall>y\<in>set out. \<not> double_wrapped y))"
proof -
  obtain ys fl where fy: "filtered a (xs, None) = (ys, fl)" by (cases "filtered a (xs, None)")
  have sub: "set ys \<subseteq> set xs" by (rule filtered_subset[OF fy])
  have 1: "\<forall>y\<in>set out. y \<in> set xs \<or> (\<exists>x\<in>set xs. \<not> is_unsortable x \<and> y = Unsortable x)"
  proof (cases "order_by a \<noteq> None \<or> order_key a \<noteq> None \<or> order_value a \<noteq> None")
    case False
    then have no: "order_by a = None" "order_key a = None" "order_value a = None" by auto
    from res select_no_order[OF no src] fy
    have "\<exists>zs g. (zs = ys \<or> zs = rev ys) \<and> apply_limit (limit a) (zs, g) = Inr (out, fault)"
      by (auto simp: always_reversible_def split: if_splits option.splits)
    then obtain zs g where zs: "zs = ys \<or> zs = rev ys" "apply_limit (limit a) (zs, g) = Inr (out, fault)"
      by blast
    from apply_limit_Inr[OF zs(2)] have "set out \<subseteq> set zs" by (auto dest: set_mono_prefix)
    with zs(1) sub show ?thesis by (cases "zs = ys") (simp_all, blast+)
  next
    case True
    from src True res show ?thesis
    proof (cases rule: select_ordered_cases)
      case (early ws)
      with fy sub show ?thesis by auto
    next
      case (sorted ws f us itr2 srt)
      from sorted(2,3) fy have hs: "handle_unsorted (ys, fl) f (drop_unsorted_arg a) (wrap_unsorted_arg a) = Inr (us, itr2)"
        by simp
      note facts = handle_unsorted_sorted(2,3)[OF hs sorted(3)]
      from apply_limit_Inr[OF sorted(4)]
      have "set out \<subseteq> set us \<union> set srt" by (auto dest!: set_mono_prefix split: if_splits)
      with facts sub show ?thesis by blast
    qed
  qed
  have 2: "\<forall>y\<in>set out. \<not> double_wrapped y" if inv: "\<forall>x\<in>set xs. \<not> double_wrapped x"
  proof
    fix y assume "y \<in> set out"
    with 1 consider "y \<in> set xs" | x where "x \<in> set xs" "\<not> is_unsortable x" "y = Unsortable x"
      by blast
    then show "\<not> double_wrapped y"
    proof cases
      case 1
      with inv show ?thesis by simp
    next
      case 2
      have "\<not> double_wrapped (Unsortable z)" if "\<not> is_unsortable z" for z
        using that by (cases z) auto
      with 2 show ?thesis by simp
    qed
  qed
  from 1 2 show ?thesis by blast
qed

theorem select_no_double_wrapping_witness:
  "snd (select (default_args\<lparr>src := Iterable
          [PObj NamedTuple ''_Int'' [''x''] [(''x'', PInt 1)],
           Unsortable (PExc ''RuntimeError'' ''Unhandled error!''),
           PObj NamedTuple ''_B'' [''y''] [(''y'', PDatetime 2015)]],
        order_key := Some ''x''\<rparr>))
     = Inr ([Unsortable (PExc ''RuntimeError'' ''Unhandled error!''),
             Unsortable (PObj NamedTuple ''_B'' [''y''] [(''y'', PDatetime 2015)]),
             PObj NamedTuple ''_Int'' [''x''] [(''x'', PInt 1)]], None)
   \<and> list_all (\<lambda>y. \<not> double_wrapped y)
        [Unsortable (PExc ''RuntimeError'' ''Unhandled error!''),
         Unsortable (PObj NamedTuple ''_B'' [''y''] [(''y'', PDatetime 2015)]),
         PObj NamedTuple ''_Int'' [''x''] [(''x'', PInt 1)]]"
proof -
  let ?xs = "[PObj NamedTuple ''_Int'' [''x''] [(''x'', PInt 1)],
           Unsortable (PExc ''RuntimeError'' ''Unhandled error!''),
           PObj NamedTuple ''_B'' [''y''] [(''y'', PDatetime 2015)]]"
  let ?out = "[Unsortable (PExc ''RuntimeError'' ''Unhandled error!''),
             Unsortable (PObj NamedTuple ''_B'' [''y''] [(''y'', PDatetime 2015)]),
             PObj NamedTuple ''_Int'' [''x''] [(''x'', PInt 1)]]"
  let ?a = "default_args\<lparr>src := Iterable ?xs, order_key := Some ''x''\<rparr>"
  have 1: "iter_src (src ?a) = ([], Inr (?xs, None))" by (simp add: default_args_def)
  have 2: "snd (select ?a) = Inr (?out, None)" by (simp add: select_eval)
  have 3: "\<forall>x\<in>set ?xs. \<not> double_wrapped x" by simp
  from select_no_double_wrapping[OF 1 2] 3 have "\<forall>y\<in>set ?out. \<not> double_wrapped y" by blast
  then have "list_all (\<lambda>y. \<not> double_wrapped y) ?out" by (simp only: list_all_iff)
  with 2 show ?thesis by simp
qed




text \<open>
  Claim C5, as the code has it. With \<^verbatim>\<open>order_key\<close> in effect (no
  \<^verbatim>\<open>order_by\<close>), a first item of the filtered stream that is neither an exception
  nor \<^verbatim>\<open>None\<close>, no default, and the key neither a key of that item (a dict) nor a
  readable attribute of it (any other value), \<^verbatim>\<open>select\<close> raises the
  QueryException that names the key and the item, at the call.
\<close>

theorem select_order_key_not_found:
  assumes "order_by a = None" and "order_key a = Some k"
      and "iter_src (src a) = (ws0, Inr (xs, None))"
      and "filtered a (xs, None) = (x # ys, fault)"
      and "\<not> is_exception x" and "x \<noteq> PNone"
      and "default_val a = PNone"
      and "if is_dict x then map_of (dict_items x) k = None else \<not> hasattr x k"
  shows "select a = ([], Inl (QueryException (CouldNotFind k x)))
       \<and> select_list a = Inl (QueryException (CouldNotFind k x))"
proof -
  have "key_func x (Some k) PNone = None"
    using assms(8) by (auto simp: key_func_def split: if_splits)
  then have "generate_order_by_func x (Some k) None PNone False = Inr ([], None)"
    using assms(5) by (simp add: generate_order_by_func_def default_func_def)
  then show ?thesis
    using assms iter_src_Inr[OF assms(3)]
    by (simp add: select_def handle_generate_order_by_def select_list_def consume_def)
qed

theorem select_order_key_not_found_witness:
  "select_list (default_args\<lparr>src := Iterable [PObj NamedTuple ''_B'' [''y''] [(''y'', PDatetime 2015)]],
        order_key := Some ''z''\<rparr>)
     = Inl (QueryException (CouldNotFind ''z'' (PObj NamedTuple ''_B'' [''y''] [(''y'', PDatetime 2015)])))"
proof -
  let ?b = "PObj NamedTuple ''_B'' [''y''] [(''y'', PDatetime 2015)]"
  let ?a = "default_args\<lparr>src := Iterable [?b], order_key := Some ''z''\<rparr>"
  have 1: "order_by ?a = None" by (simp add: default_args_def)
  have 2: "order_key ?a = Some ''z''" by (simp add: default_args_def)
  have 3: "iter_src (src ?a) = ([], Inr ([?b], None))" by (simp add: default_args_def)
  have 4: "filtered ?a ([?b], None) = (?b # [], None)"
    by (simp add: default_args_def filtered_def)
  have 5: "\<not> is_exception ?b" "?b \<noteq> PNone" "default_val ?a = PNone"
    by (simp_all add: default_args_def)
  have 6: "if is_dict ?b then map_of (dict_items ?b) ''z'' = None else \<not> hasattr ?b ''z''"
    by (simp add: hasattr_def)
  from select_order_key_not_found[OF 1 2 3 4 5 6] show ?thesis by simp
qed

text \<open>
  The claim as stated fails when the first item is an exception: the key is not found on
  it, yet the factory returns the function that is \<^verbatim>\<open>None\<close> everywhere and the
  call returns the item wrapped.
\<close>

theorem select_order_key_not_found_counterexample:
  "\<not> hasattr (PExc ''RuntimeError'' ''Unhandled error!'') ''z''
   \<and> select_list (default_args\<lparr>src := Iterable [PExc ''RuntimeError'' ''Unhandled error!''],
        order_key := Some ''z''\<rparr>)
     = Inr [Unsortable (PExc ''RuntimeError'' ''Unhandled error!'')]"
  by (simp add: select_eval)

text \<open>
  Claim C6. With \<^verbatim>\<open>order_key\<close> in effect (\<^verbatim>\<open>order_by\<close>, which takes
  precedence, is not given) and a stream that is empty after the error policies and the
  \<^verbatim>\<open>where\<close> filter, \<^verbatim>\<open>select\<close> returns the empty stream and emits nothing,
  whatever the other arguments are: the partition, the sort and the limit are not
  reached.
\<close>

theorem select_order_key_empty_stream:
  assumes "order_by a = None" and "order_key a = Some k"
      and "iter_src (src a) = (ws0, Inr (xs, None))"
      and "filtered a (xs, None) = ([], None)"
  shows "select a = ([], Inr ([], None)) \<and> select_list a = Inr []"
  using assms iter_src_Inr[OF assms(3)]
  by (simp add: select_def handle_generate_order_by_def select_list_def consume_def)

theorem select_order_key_empty_stream_witness:
  "order_by (default_args\<lparr>src := Iterable [PInt 1, PInt 2], where_fn := Some is_datetime,
        order_key := Some ''x'', limit := Some (- 1)\<rparr>) = None
   \<and> filtered (default_args\<lparr>src := Iterable [PInt 1, PInt 2], where_fn := Some is_datetime,
        order_key := Some ''x'', limit := Some (- 1)\<rparr>) ([PInt 1, PInt 2], None) = ([], None)
   \<and> select_list (default_args\<lparr>src := Iterable [PInt 1, PInt 2], where_fn := Some is_datetime,
        order_key := Some ''x'', limit := Some (- 1)\<rparr>) = Inr []"
proof -
  let ?a = "default_args\<lparr>src := Iterable [PInt 1, PInt 2], where_fn := Some is_datetime,
        order_key := Some ''x'', limit := Some (- 1)\<rparr>"
  have 1: "order_by ?a = None" by (simp add: default_args_def)
  have 2: "order_key ?a = Some ''x''" by (simp add: default_args_def)
  have 3: "iter_src (src ?a) = ([], Inr ([PInt 1, PInt 2], None))" by (simp add: default_args_def)
  have 4: "filtered ?a ([PInt 1, PInt 2], None) = ([], None)"
    by (simp add: default_args_def filtered_def filter_itr_def)
  from select_order_key_empty_stream[OF 1 2 3 4] 1 4 show ?thesis by simp
qed

text \<open>
  Claim C7. When the sample of \<^verbatim>\<open>_generate_order_by_func\<close> is an exception, the
  build does not raise, whatever the other arguments are: with a default it returns the
  constant function of the default and emits nothing; with no default it calls
  \<^verbatim>\<open>low\<close> once and returns the function that is \<^verbatim>\<open>None\<close> on every input.
\<close>

theorem generate_order_by_func_error_sample:
  assumes "is_exception sample"
  shows "\<exists>ws f. generate_order_by_func sample key where_function d force_unsortable = Inr (ws, Some f)
           \<and> (if d \<noteq> PNone then ws = [] \<and> (\<forall>x. f x = Inr d)
               else ws = [LowOrderByException sample] \<and> (\<forall>x. f x = Inr PNone))"
  using assms by (simp add: generate_order_by_func_def)

theorem generate_order_by_func_error_sample_witness:
  "is_exception (PExc ''RuntimeError'' ''Unhandled error!'')
   \<and> (\<exists>ws f. generate_order_by_func (PExc ''RuntimeError'' ''Unhandled error!'') (Some ''z'') None PNone False
          = Inr (ws, Some f)
        \<and> ws = [LowOrderByException (PExc ''RuntimeError'' ''Unhandled error!'')]
        \<and> (\<forall>x. f x = Inr PNone))"
  using generate_order_by_func_error_sample
    [of "PExc ''RuntimeError'' ''Unhandled error!''" "Some ''z''" None PNone False]
  by simp

text \<open>
  Claim C8. A function built by the factory from a sample that is not an exception,
  with a default \<open>d\<close>, is either the constant \<open>d\<close> (no key or attribute was
  selected) or reads one selected key or attribute \<open>k\<close> of the sample: it returns
  the value stored under \<open>k\<close> whenever \<open>k\<close> is present, so \<^verbatim>\<open>None\<close> when
  \<^verbatim>\<open>None\<close> is stored, and \<open>d\<close> only when \<open>k\<close> is missing. For a dict
  sample the function reads keys and is applied to dicts; for any other sample it reads
  attributes.
\<close>

theorem presence_wins_over_default:
  assumes "generate_order_by_func sample key where_function d force_unsortable = Inr (ws, Some f)"
      and "\<not> is_exception sample"
      and "d \<noteq> PNone"
  shows "(key_func sample key d = None \<and> (\<forall>r. f r = Inr d))
       \<or> (\<exists>k. (key_func sample key d \<noteq> None \<longrightarrow> key = Some k) \<and>
             (if is_dict sample
              then k \<in> fst ` set (dict_items sample) \<and>
                   (\<forall>r. is_dict r \<longrightarrow>
                      f r = Inr (case map_of (dict_items r) k of None \<Rightarrow> d | Some v \<Rightarrow> v))
              else k \<in> fst ` set (getmembers sample) \<and>
                   (\<forall>r. f r = Inr (case map_of (getmembers r) k of None \<Rightarrow> d | Some v \<Rightarrow> v))))"
proof (cases "key_func sample key d")
  case (Some g)
  with assms have fg: "f = g" by (simp add: generate_order_by_func_def)
  from Some obtain k where k: "key = Some k" by (cases key) (auto simp: key_func_def)
  show ?thesis
  proof (cases "is_dict sample")
    case True
    with Some k have "map_of (dict_items sample) k \<noteq> None" "g = dict_get k d"
      by (auto simp: key_func_def split: if_splits)
    then have "k \<in> fst ` set (dict_items sample)" "\<forall>r. is_dict r \<longrightarrow>
        f r = Inr (case map_of (dict_items r) k of None \<Rightarrow> d | Some v \<Rightarrow> v)"
      using fg by (auto simp: dict_get_def dest!: map_of_SomeD intro: rev_image_eqI)
    with True k show ?thesis by auto
  next
    case False
    with Some k have "map_of (getmembers sample) k \<noteq> None" "g = getattr_default k d"
      by (auto simp: key_func_def hasattr_def split: if_splits)
    then have "k \<in> fst ` set (getmembers sample)" "\<forall>r.
        f r = Inr (case map_of (getmembers r) k of None \<Rightarrow> d | Some v \<Rightarrow> v)"
      using fg by (auto simp: getattr_default_def dest!: map_of_SomeD intro: rev_image_eqI)
    with False k show ?thesis by auto
  qed
next
  case None
  show ?thesis
  proof (cases where_function)
    case wNone: None
    with None assms have "f = (\<lambda>x. Inr d)"
      by (simp add: generate_order_by_func_def default_func_def)
    with None show ?thesis by simp
  next
    case (Some w)
    show ?thesis
    proof (cases "attribute_func sample w d")
      case (Inl e)
      with None Some assms show ?thesis by (simp add: generate_order_by_func_def)
    next
      case (Inr r)
      show ?thesis
      proof (cases r)
        case rNone: None
        with Inr None Some assms have "f = (\<lambda>x. Inr d)"
          by (simp add: generate_order_by_func_def default_func_def)
        with None show ?thesis by simp
      next
        case (Some g)
        with Inr None \<open>where_function = Some w\<close> assms have fg: "f = g"
          by (simp add: generate_order_by_func_def)
        from attribute_func_shape[of sample w d g] Inr Some
        consider (dict) k v where "is_dict sample" "g = dict_get k d" "(k, v) \<in> set (dict_items sample)"
          | (attr) k v where "g = getattr_default k d" "(k, v) \<in> set (getmembers sample)"
          by auto
        then show ?thesis
        proof cases
          case dict
          then have "k \<in> fst ` set (dict_items sample)" by (auto intro: rev_image_eqI)
          moreover have "\<forall>r. is_dict r \<longrightarrow>
              f r = Inr (case map_of (dict_items r) k of None \<Rightarrow> d | Some v \<Rightarrow> v)"
            using fg dict by (simp add: dict_get_def)
          ultimately show ?thesis using None dict(1) by auto
        next
          case attr
          have nd: "\<not> is_dict sample" using attr(2) by (cases sample) auto
          have "k \<in> fst ` set (getmembers sample)" using attr by (auto intro: rev_image_eqI)
          moreover have "\<forall>r. f r = Inr (case map_of (getmembers r) k of None \<Rightarrow> d | Some v \<Rightarrow> v)"
            using fg attr by (simp add: getattr_default_def)
          ultimately show ?thesis using None nd by auto
        qed
      qed
    qed
  qed
qed

theorem presence_wins_over_default_witness:
  "generate_order_by_func (PDict [(''t'', PDatetime 5)]) (Some ''t'') None (PDatetime 0) False
     = Inr ([], Some (dict_get ''t'' (PDatetime 0)))
   \<and> \<not> is_exception (PDict [(''t'', PDatetime 5)])
   \<and> PDatetime 0 \<noteq> PNone
   \<and> dict_get ''t'' (PDatetime 0) (PDict [(''t'', PNone)]) = Inr PNone
   \<and> dict_get ''t'' (PDatetime 0) (PDict [(''u'', PNone)]) = Inr (PDatetime 0)"
proof -
  have b: "generate_order_by_func (PDict [(''t'', PDatetime 5)]) (Some ''t'') None (PDatetime 0) False
     = Inr ([], Some (dict_get ''t'' (PDatetime 0)))"
    by (simp add: generate_order_by_func_def key_func_def)
  have k: "key_func (PDict [(''t'', PDatetime 5)]) (Some ''t'') (PDatetime 0) \<noteq> None"
    by (simp add: key_func_def)
  from presence_wins_over_default[OF b] k
  have "\<forall>r. is_dict r \<longrightarrow> dict_get ''t'' (PDatetime 0) r
          = Inr (case map_of (dict_items r) ''t'' of None \<Rightarrow> PDatetime 0 | Some v \<Rightarrow> v)"
    by auto
  from this[rule_format, of "PDict [(''t'', PNone)]"] this[rule_format, of "PDict [(''u'', PNone)]"] b
  show ?thesis by simp
qed





end
